theory Spec2Isabelle
  imports Complex_Main "HOL-Library.Log_Nat"
begin

section \<open>Floating-point values and their arithmetic\<close>

text \<open>
  The matrices of \<^verbatim>\<open>compute_t_matrices_1.py\<close> and of the two raw-matrix modules are numpy
  arrays of float64. A cell is either a finite number or one of the three special values
  of IEEE 754. The sentinel for an unreachable pair is \<open>NaN\<close>.

  Finite values are reals; every arithmetic operation on two finite values rounds its
  exact result with a rounding function, which is a parameter of the whole development:
  \<open>exact\<close> rounds nothing, \<open>binary64\<close> rounds to the nearest number with a 53-bit
  significand, ties to even. The general theorems hold for every rounding that keeps zero
  and signs (\<open>rounding_ok\<close>), which both do. Not modelled: the bounded exponent of float64
  (overflow to infinity, gradual underflow) and the sign of zero (a zero denominator is
  \<open>+0\<close>).
\<close>

datatype fl = Fin real | PInf | NInf | NaN

type_synonym rounding = "real \<Rightarrow> real"

definition exact :: rounding where
  "exact x = x"

definition round_half_even :: "real \<Rightarrow> int" where
  "round_half_even z =
     (let f = \<lfloor>z\<rfloor>; d = z - of_int f
      in if d < 1 / 2 then f else if 1 / 2 < d then f + 1 else if even f then f else f + 1)"

definition ilog2 :: "real \<Rightarrow> int" where
  \<comment> \<open>the exponent \<open>e\<close> with \<open>2^e \<le> x < 2^(e+1)\<close>, for \<open>x > 0\<close>\<close>
  "ilog2 x = (if 1 \<le> x then bitlen \<lfloor>x\<rfloor> - 1 else - bitlen (\<lceil>1 / x\<rceil> - 1))"

definition binary64 :: rounding where
  "binary64 x =
     (if x = 0 then 0
      else let u = 2 powi (ilog2 \<bar>x\<bar> - 52) in of_int (round_half_even (x / u)) * u)"

definition rounding_ok :: "rounding \<Rightarrow> bool" where
  \<comment> \<open>a rounding keeps zero and the sign of what it rounds\<close>
  "rounding_ok r \<longleftrightarrow> r 0 = 0 \<and> (\<forall>x. 0 < x \<longrightarrow> 0 < r x) \<and> (\<forall>x. x < 0 \<longrightarrow> r x < 0)"

fun fl_add :: "rounding \<Rightarrow> fl \<Rightarrow> fl \<Rightarrow> fl" where
  "fl_add r (Fin a) (Fin b) = Fin (r (a + b))"
| "fl_add r NaN _ = NaN"
| "fl_add r _ NaN = NaN"
| "fl_add r PInf NInf = NaN"
| "fl_add r NInf PInf = NaN"
| "fl_add r PInf _ = PInf"
| "fl_add r _ PInf = PInf"
| "fl_add r NInf _ = NInf"
| "fl_add r _ NInf = NInf"

fun fl_mul :: "rounding \<Rightarrow> fl \<Rightarrow> fl \<Rightarrow> fl" where
  "fl_mul r (Fin a) (Fin b) = Fin (r (a * b))"
| "fl_mul r NaN _ = NaN"
| "fl_mul r _ NaN = NaN"
| "fl_mul r (Fin a) PInf = (if 0 < a then PInf else if a < 0 then NInf else NaN)"
| "fl_mul r (Fin a) NInf = (if 0 < a then NInf else if a < 0 then PInf else NaN)"
| "fl_mul r PInf (Fin b) = (if 0 < b then PInf else if b < 0 then NInf else NaN)"
| "fl_mul r NInf (Fin b) = (if 0 < b then NInf else if b < 0 then PInf else NaN)"
| "fl_mul r PInf PInf = PInf"
| "fl_mul r PInf NInf = NInf"
| "fl_mul r NInf PInf = NInf"
| "fl_mul r NInf NInf = PInf"

fun fl_div :: "rounding \<Rightarrow> fl \<Rightarrow> fl \<Rightarrow> fl" where
  "fl_div r (Fin a) (Fin b) =
     (if b = 0 then (if 0 < a then PInf else if a < 0 then NInf else NaN)
      else Fin (r (a / b)))"
| "fl_div r NaN _ = NaN"
| "fl_div r _ NaN = NaN"
| "fl_div r (Fin a) PInf = Fin 0"
| "fl_div r (Fin a) NInf = Fin 0"
| "fl_div r PInf (Fin b) = (if b < 0 then NInf else PInf)"
| "fl_div r NInf (Fin b) = (if b < 0 then PInf else NInf)"
| "fl_div r PInf PInf = NaN"
| "fl_div r PInf NInf = NaN"
| "fl_div r NInf PInf = NaN"
| "fl_div r NInf NInf = NaN"

definition isnan :: "fl \<Rightarrow> bool" where
  "isnan v \<longleftrightarrow> v = NaN"

definition fl_eq :: "fl \<Rightarrow> fl \<Rightarrow> bool" where
  \<comment> \<open>the comparison \<^verbatim>\<open>==\<close> of two floats: a NaN equals nothing\<close>
  "fl_eq a b \<longleftrightarrow> a \<noteq> NaN \<and> b \<noteq> NaN \<and> a = b"

definition fl_max :: "fl \<Rightarrow> fl \<Rightarrow> real" where
  "fl_max a b = (case (a, b) of (Fin x, Fin y) \<Rightarrow> max x y | _ \<Rightarrow> 0)"

definition normal64 :: "real \<Rightarrow> bool" where
  \<comment> \<open>an exact result that float64 rounds without overflow or underflow: zero, or of
     magnitude between the smallest normal number and the largest finite one\<close>
  "normal64 z \<longleftrightarrow> z = 0 \<or> (2 powi (- 1022) \<le> \<bar>z\<bar> \<and> \<bar>z\<bar> \<le> (2 ^ 53 - 1) * 2 ^ 971)"

section \<open>Errors and two-dimensional arrays\<close>

datatype error = ValueError string | IndexError | NetworkXNoPath | ZeroDivisionError

definition bind_res :: "error + 'a \<Rightarrow> ('a \<Rightarrow> error + 'b) \<Rightarrow> error + 'b" where
  "bind_res m f = (case m of Inl e \<Rightarrow> Inl e | Inr x \<Rightarrow> f x)"

definition py_truediv :: "rounding \<Rightarrow> fl \<Rightarrow> fl \<Rightarrow> error + fl" where
  \<comment> \<open>\<^verbatim>\<open>a / b\<close> on two Python floats: a zero divisor raises, where numpy would warn\<close>
  "py_truediv r a b = (if b = Fin 0 then Inl ZeroDivisionError else Inr (fl_div r a b))"

text \<open>
  A two-dimensional numpy array: its shape and its cells. Cells outside the shape carry
  no meaning; reading there raises \<^verbatim>\<open>IndexError\<close> (the loops of the source only use
  non-negative indices).
\<close>

record ndarray =
  shape0 :: nat
  shape1 :: nat
  cells :: "nat \<Rightarrow> nat \<Rightarrow> fl"

definition of_rows :: "fl list list \<Rightarrow> ndarray" where
  \<comment> \<open>the array of a rectangular list of rows, as \<^verbatim>\<open>np.array\<close> builds it\<close>
  "of_rows xss =
     \<lparr>shape0 = length xss, shape1 = (case xss of [] \<Rightarrow> 0 | xs # _ \<Rightarrow> length xs),
      cells = (\<lambda>i j. xss ! i ! j)\<rparr>"

definition getitem :: "ndarray \<Rightarrow> nat \<Rightarrow> nat \<Rightarrow> error + fl" where
  "getitem A i j = (if i < shape0 A \<and> j < shape1 A then Inr (cells A i j) else Inl IndexError)"

definition setitem :: "ndarray \<Rightarrow> nat \<Rightarrow> nat \<Rightarrow> fl \<Rightarrow> ndarray" where
  \<comment> \<open>\<^verbatim>\<open>A[i, j] = v\<close>; every write of the source is inside the shape\<close>
  "setitem A i j v = A\<lparr>cells := (cells A)(i := (cells A i)(j := v))\<rparr>"

definition zeros :: "nat \<Rightarrow> nat \<Rightarrow> ndarray" where
  "zeros n m = \<lparr>shape0 = n, shape1 = m, cells = (\<lambda>i j. Fin 0)\<rparr>"

definition full :: "nat \<Rightarrow> nat \<Rightarrow> fl \<Rightarrow> ndarray" where
  "full n m v = \<lparr>shape0 = n, shape1 = m, cells = (\<lambda>i j. v)\<rparr>"

definition transpose_nd :: "ndarray \<Rightarrow> ndarray" where
  "transpose_nd A = \<lparr>shape0 = shape1 A, shape1 = shape0 A, cells = (\<lambda>i j. cells A j i)\<rparr>"

definition reshape_col :: "fl list \<Rightarrow> ndarray" where
  \<comment> \<open>\<^verbatim>\<open>populations.reshape(-1, 1)\<close>\<close>
  "reshape_col p = \<lparr>shape0 = length p, shape1 = 1, cells = (\<lambda>i j. p ! i)\<rparr>"

definition reshape_row :: "fl list \<Rightarrow> ndarray" where
  \<comment> \<open>\<^verbatim>\<open>populations.reshape(1, -1)\<close>\<close>
  "reshape_row p = \<lparr>shape0 = 1, shape1 = length p, cells = (\<lambda>i j. p ! j)\<rparr>"

definition bdim :: "nat \<Rightarrow> nat \<Rightarrow> nat option" where
  \<comment> \<open>numpy's broadcasting rule for one axis\<close>
  "bdim a b = (if a = b then Some a else if a = 1 then Some b else if b = 1 then Some a else None)"

definition broadcast :: "(fl \<Rightarrow> fl \<Rightarrow> fl) \<Rightarrow> ndarray \<Rightarrow> ndarray \<Rightarrow> error + ndarray" where
  \<comment> \<open>an elementwise binary operation of numpy; an axis of length 1 is stretched\<close>
  "broadcast f A B =
     (case bdim (shape0 A) (shape0 B) of
        None \<Rightarrow> Inl (ValueError ''operands could not be broadcast together'')
      | Some n \<Rightarrow>
     (case bdim (shape1 A) (shape1 B) of
        None \<Rightarrow> Inl (ValueError ''operands could not be broadcast together'')
      | Some m \<Rightarrow>
          Inr \<lparr>shape0 = n, shape1 = m,
               cells = (\<lambda>i j. f (cells A (if shape0 A = 1 then 0 else i)
                                         (if shape1 A = 1 then 0 else j))
                                (cells B (if shape0 B = 1 then 0 else i)
                                         (if shape1 B = 1 then 0 else j)))\<rparr>))"

definition nan_to_zero :: "ndarray \<Rightarrow> ndarray" where
  \<comment> \<open>\<^verbatim>\<open>A[np.isnan(A)] = 0\<close>\<close>
  "nan_to_zero A = A\<lparr>cells := (\<lambda>i j. if isnan (cells A i j) then Fin 0 else cells A i j)\<rparr>"

section \<open>The weighted symmetrization: \<^verbatim>\<open>compute_t_matrices_1.py\<close>\<close>

definition compute_dtilde_matrix :: "rounding \<Rightarrow> ndarray \<Rightarrow> fl list \<Rightarrow> error + ndarray" where
  "compute_dtilde_matrix r travel_matrix populations =
     (let pop_i = reshape_col populations;
          pop_j = reshape_row populations
      in bind_res (broadcast (fl_mul r) pop_i travel_matrix) (\<lambda>a.
         bind_res (broadcast (fl_mul r) pop_j (transpose_nd travel_matrix)) (\<lambda>b.
         bind_res (broadcast (fl_add r) a b) (\<lambda>num.
         bind_res (broadcast (fl_add r) pop_i pop_j) (\<lambda>den.
         bind_res (broadcast (fl_div r) num den) (\<lambda>dtilde.
         Inr (nan_to_zero dtilde)))))))"

definition d_entry :: "rounding \<Rightarrow> ndarray \<Rightarrow> fl list \<Rightarrow> nat \<Rightarrow> nat \<Rightarrow> error + fl" where
  \<comment> \<open>the value the loop body of \<^verbatim>\<open>compute_d_matrix\<close> stores at \<open>(i, j)\<close>\<close>
  "d_entry r dtilde_matrix populations i j =
     (let popi = populations ! i; popj = populations ! j
      in if popi = Fin 0 \<and> popj = Fin 0 then Inr (Fin 0)
         else if popi = Fin 0 then getitem dtilde_matrix j i
         else if popj = Fin 0 then getitem dtilde_matrix i j
         else bind_res (getitem dtilde_matrix i j) (\<lambda>x.
              bind_res (getitem dtilde_matrix j i) (\<lambda>y.
              Inr (fl_div r (fl_add r (fl_mul r popi x) (fl_mul r popj y))
                            (fl_add r popi popj)))))"

fun d_inner :: "rounding \<Rightarrow> ndarray \<Rightarrow> fl list \<Rightarrow> nat \<Rightarrow> nat list \<Rightarrow> ndarray \<Rightarrow> error + ndarray" where
  "d_inner r dt p i [] d_matrix = Inr d_matrix"
| "d_inner r dt p i (j # js) d_matrix =
     bind_res (d_entry r dt p i j) (\<lambda>v. d_inner r dt p i js (setitem d_matrix i j v))"

fun d_outer :: "rounding \<Rightarrow> ndarray \<Rightarrow> fl list \<Rightarrow> nat \<Rightarrow> nat list \<Rightarrow> ndarray \<Rightarrow> error + ndarray" where
  "d_outer r dt p n [] d_matrix = Inr d_matrix"
| "d_outer r dt p n (i # is) d_matrix =
     bind_res (d_inner r dt p i [0..<n] d_matrix) (\<lambda>d'. d_outer r dt p n is d')"

definition compute_d_matrix :: "rounding \<Rightarrow> ndarray \<Rightarrow> fl list \<Rightarrow> error + ndarray" where
  "compute_d_matrix r dtilde_matrix populations =
     (let n = length populations
      in d_outer r dtilde_matrix populations n [0..<n] (zeros n n))"

definition d_of_travel :: "rounding \<Rightarrow> ndarray \<Rightarrow> fl list \<Rightarrow> error + ndarray" where
  \<comment> \<open>the two passes as \<^verbatim>\<open>process_files\<close> chains them: \<open>d\<close> from the raw matrix\<close>
  "d_of_travel r travel_matrix populations =
     bind_res (compute_dtilde_matrix r travel_matrix populations) (\<lambda>dtilde.
     compute_d_matrix r dtilde populations)"

definition cell_of :: "error + ndarray \<Rightarrow> nat \<Rightarrow> nat \<Rightarrow> error + fl" where
  \<comment> \<open>reading one cell of a result\<close>
  "cell_of m i j = bind_res m (\<lambda>A. getitem A i j)"

definition weighted_mean :: "rounding \<Rightarrow> fl \<Rightarrow> fl \<Rightarrow> fl \<Rightarrow> fl \<Rightarrow> fl" where
  \<comment> \<open>the expression both passes evaluate: \<^verbatim>\<open>(wi * x + wj * y) / (wi + wj)\<close>\<close>
  "weighted_mean r wi wj x y =
     fl_div r (fl_add r (fl_mul r wi x) (fl_mul r wj y)) (fl_add r wi wj)"

definition d_val :: "rounding \<Rightarrow> ndarray \<Rightarrow> fl list \<Rightarrow> nat \<Rightarrow> nat \<Rightarrow> fl" where
  \<comment> \<open>the four cases of the second pass, for indices inside the shape\<close>
  "d_val r dt p i j =
     (if p ! i = Fin 0 \<and> p ! j = Fin 0 then Fin 0
      else if p ! i = Fin 0 then cells dt j i
      else if p ! j = Fin 0 then cells dt i j
      else weighted_mean r (p ! i) (p ! j) (cells dt i j) (cells dt j i))"

definition dtilde_val :: "rounding \<Rightarrow> ndarray \<Rightarrow> fl list \<Rightarrow> nat \<Rightarrow> nat \<Rightarrow> fl" where
  \<comment> \<open>the cell of the first pass, for indices inside the shape\<close>
  "dtilde_val r T p i j =
     (let v = weighted_mean r (p ! i) (p ! j) (cells T i j) (cells T j i)
      in if v = NaN then Fin 0 else v)"

definition is_population :: "fl \<Rightarrow> bool" where
  \<comment> \<open>a population count: finite and not negative\<close>
  "is_population v = (case v of Fin a \<Rightarrow> 0 \<le> a | _ \<Rightarrow> False)"

subsection \<open>Loading, checking and labelling\<close>

text \<open>
  \<^verbatim>\<open>process_files\<close> and \<^verbatim>\<open>load_labeled_matrix\<close> read a CSV of tracts and a \<^verbatim>\<open>.npy\<close>
  matrix. The model takes what was read: the rows of the CSV (columns \<^verbatim>\<open>ID\<close> and
  \<^verbatim>\<open>B01003_001E\<close>) and the array. What they write is returned as a list of files.
\<close>

datatype csv_value = Number fl | NotNumeric

record tract_row =
  ID :: string
  B01003_001E :: csv_value

definition to_numeric_coerce :: "csv_value \<Rightarrow> fl" where
  \<comment> \<open>\<^verbatim>\<open>pd.to_numeric(..., errors='coerce')\<close>\<close>
  "to_numeric_coerce c = (case c of Number v \<Rightarrow> v | NotNumeric \<Rightarrow> NaN)"

definition fillna0 :: "fl \<Rightarrow> fl" where
  "fillna0 v = (if isnan v then Fin 0 else v)"

record labeled_matrix =
  index :: "string list"
  columns :: "string list"
  frame_values :: ndarray

definition DataFrame :: "ndarray \<Rightarrow> string list \<Rightarrow> string list \<Rightarrow> error + labeled_matrix" where
  \<comment> \<open>\<^verbatim>\<open>pd.DataFrame(matrix, index=..., columns=...)\<close> refuses labels of another length\<close>
  "DataFrame matrix idx cols =
     (if shape0 matrix = length idx \<and> shape1 matrix = length cols
      then Inr \<lparr>index = idx, columns = cols, frame_values = matrix\<rparr>
      else Inl (ValueError ''Shape of passed values does not match the labels''))"

datatype saved_file = CsvFile string labeled_matrix | NpyFile string ndarray

fun save_all :: "string \<Rightarrow> string \<Rightarrow> string list \<Rightarrow> (ndarray \<times> string) list \<Rightarrow> error + saved_file list" where
  "save_all base_name travel_type ids [] = Inr []"
| "save_all base_name travel_type ids ((matrix, label) # rest) =
     bind_res (DataFrame matrix ids ids) (\<lambda>df_matrix.
     bind_res (save_all base_name travel_type ids rest) (\<lambda>files.
     Inr (CsvFile (base_name @ ''_'' @ label @ ''_'' @ travel_type @ ''.csv'') df_matrix
          # NpyFile (base_name @ ''_'' @ label @ ''_'' @ travel_type @ ''.npy'') matrix
          # files)))"

definition process_files ::
    "rounding \<Rightarrow> string \<Rightarrow> string \<Rightarrow> tract_row list \<Rightarrow> ndarray \<Rightarrow> error + saved_file list" where
  "process_files r travel_type base_name df travel_matrix =
     (let populations = map (\<lambda>row. fillna0 (to_numeric_coerce (B01003_001E row))) df;
          ids = map ID df
      in if shape0 travel_matrix \<noteq> length populations
         then Inl (ValueError
                ''Mismatch: travel matrix size does not match number of population entries.'')
         else bind_res (compute_dtilde_matrix r travel_matrix populations) (\<lambda>dtilde.
              bind_res (compute_d_matrix r dtilde populations) (\<lambda>dmat.
              save_all base_name travel_type ids [(dtilde, ''dtilde''), (dmat, ''d'')])))"

definition load_labeled_matrix :: "ndarray \<Rightarrow> tract_row list \<Rightarrow> error + labeled_matrix" where
  "load_labeled_matrix matrix df =
     (let ids = map ID df
      in if shape0 matrix \<noteq> length ids
         then Inl (ValueError ''Matrix size and number of IDs do not match.'')
         else DataFrame matrix ids ids)"

section \<open>The raw travel matrices\<close>

text \<open>
  Both raw-matrix modules ask networkx for shortest paths on a graph that OSMnx built.
  The graph is a parameter, seen through its shortest-path cost: \<open>G s t = Some c\<close> when
  the cheapest path from \<open>s\<close> to \<open>t\<close> costs \<open>c\<close>, and \<open>None\<close> when \<open>t\<close> cannot be reached
  from \<open>s\<close>. \<^verbatim>\<open>nx.shortest_path_length\<close> raises \<^verbatim>\<open>NetworkXNoPath\<close> in the second case;
  \<^verbatim>\<open>nx.single_source_dijkstra_path_length\<close> returns the dictionary of the reachable
  nodes. The nodes are those \<^verbatim>\<open>nearest_nodes\<close> returned, one per point.
\<close>

type_synonym 'v graph = "'v \<Rightarrow> 'v \<Rightarrow> real option"

definition shortest_path_length :: "'v graph \<Rightarrow> 'v \<Rightarrow> 'v \<Rightarrow> error + real" where
  "shortest_path_length G s t = (case G s t of None \<Rightarrow> Inl NetworkXNoPath | Some c \<Rightarrow> Inr c)"

definition single_source_dijkstra_path_length :: "'v graph \<Rightarrow> 'v \<Rightarrow> ('v \<rightharpoonup> real)" where
  "single_source_dijkstra_path_length G src = G src"

subsection \<open>Pairwise queries on a worker pool: \<^verbatim>\<open>raw_walk_and_drive_times1.py\<close>\<close>


definition pairs_drive :: "nat \<Rightarrow> (nat \<times> nat) list" where
  "pairs_drive n = [(i, j). i \<leftarrow> [0..<n], j \<leftarrow> [0..<n], i \<noteq> j]"

fun pool_map :: "('a \<Rightarrow> error + 'b) \<Rightarrow> 'a list \<Rightarrow> error + 'b list" where
  \<comment> \<open>\<^verbatim>\<open>pool.map\<close>: the results in the order of the inputs, or the exception of a worker\<close>
  "pool_map f [] = Inr []"
| "pool_map f (x # xs) =
     bind_res (f x) (\<lambda>y. bind_res (pool_map f xs) (\<lambda>ys. Inr (y # ys)))"

definition drive_time :: "'v graph \<Rightarrow> 'v list \<Rightarrow> nat \<times> nat \<Rightarrow> error + fl" where
  "drive_time Gd nodes_drive pair =
     (case pair of (i, j) \<Rightarrow>
        bind_res (shortest_path_length Gd (nodes_drive ! i) (nodes_drive ! j)) (\<lambda>c. Inr (Fin c)))"



fun fill_drive :: "(nat \<times> nat \<times> nat) list \<Rightarrow> fl list \<Rightarrow> ndarray \<Rightarrow> ndarray" where
  "fill_drive [] drive_results D = D"
| "fill_drive ((idx, i, j) # rest) drive_results D =
     fill_drive rest drive_results (setitem D i j (drive_results ! idx))"

fun fill_walk :: "(nat \<times> nat \<times> nat) list \<Rightarrow> fl list \<Rightarrow> ndarray \<Rightarrow> ndarray" where
  "fill_walk [] walk_results W = W"
| "fill_walk ((idx, i, j) # rest) walk_results W =
     fill_walk rest walk_results
       (setitem (setitem W i j (walk_results ! idx)) j i (walk_results ! idx))"

definition compute_matrices_drive :: "'v graph \<Rightarrow> 'v list \<Rightarrow> error + ndarray" where
  \<comment> \<open>the drive-time segment of \<^verbatim>\<open>compute_matrices\<close>; the result is the matrix it saves\<close>
  "compute_matrices_drive Gd nodes_drive =
     (let n = length nodes_drive
      in bind_res (pool_map (drive_time Gd nodes_drive) (pairs_drive n)) (\<lambda>drive_results.
         Inr (fill_drive (enumerate 0 (pairs_drive n)) drive_results (zeros n n))))"


subsection \<open>One Dijkstra run per source: \<^verbatim>\<open>raw_walk_and_drive_times_test_2.py\<close>\<close>

fun drive_row :: "('v \<rightharpoonup> real) \<Rightarrow> nat \<Rightarrow> (nat \<times> 'v) list \<Rightarrow> ndarray \<Rightarrow> ndarray" where
  "drive_row lengths i [] D = D"
| "drive_row lengths i ((j, tgt) # rest) D =
     drive_row lengths i rest
       (setitem D i j (case lengths tgt of None \<Rightarrow> NaN | Some c \<Rightarrow> Fin c))"

fun drive_rows :: "'v graph \<Rightarrow> 'v list \<Rightarrow> (nat \<times> 'v) list \<Rightarrow> ndarray \<Rightarrow> ndarray" where
  "drive_rows G nodes [] D = D"
| "drive_rows G nodes ((i, src) # rest) D =
     drive_rows G nodes rest
       (drive_row (single_source_dijkstra_path_length G src) i (enumerate 0 nodes) D)"

definition compute_full_drive_matrix :: "'v graph \<Rightarrow> 'v list \<Rightarrow> ndarray" where
  "compute_full_drive_matrix G nodes =
     (let n = length nodes in drive_rows G nodes (enumerate 0 nodes) (full n n NaN))"

fun walk_row ::
    "rounding \<Rightarrow> fl \<Rightarrow> ('v \<rightharpoonup> real) \<Rightarrow> nat \<Rightarrow> (nat \<times> 'v) list \<Rightarrow> ndarray \<Rightarrow> error + ndarray" where
  "walk_row r speed_mps lengths i [] W = Inr W"
| "walk_row r speed_mps lengths i ((j, tgt) # rest) W =
     (case lengths tgt of
        None \<Rightarrow> walk_row r speed_mps lengths i rest W
      | Some dist_m \<Rightarrow>
          bind_res (py_truediv r (Fin dist_m) speed_mps) (\<lambda>secs.
          walk_row r speed_mps lengths i rest (setitem (setitem W i j secs) j i secs)))"

fun walk_rows ::
    "rounding \<Rightarrow> fl \<Rightarrow> 'v graph \<Rightarrow> 'v list \<Rightarrow> (nat \<times> 'v) list \<Rightarrow> ndarray \<Rightarrow> error + ndarray" where
  "walk_rows r speed_mps G nodes [] W = Inr W"
| "walk_rows r speed_mps G nodes ((i, src) # rest) W =
     bind_res
       (walk_row r speed_mps (single_source_dijkstra_path_length G src) i (enumerate 0 nodes) W)
       (\<lambda>W'. walk_rows r speed_mps G nodes rest W')"

definition compute_full_walk_matrix ::
    "rounding \<Rightarrow> 'v graph \<Rightarrow> 'v list \<Rightarrow> fl \<Rightarrow> error + ndarray" where
  "compute_full_walk_matrix r G nodes speed_mps =
     (let n = length nodes
      in walk_rows r speed_mps G nodes (enumerate 0 nodes) (full n n NaN))"

text \<open>Three graphs on the nodes \<open>0\<close> and \<open>1\<close>: a one-way street from \<open>1\<close> to \<open>0\<close>, a
  street open in both directions, and two nodes with no street between them.\<close>

definition one_way :: "nat graph" where
  "one_way s t = (if s = t then Some 0 else if s = 1 \<and> t = 0 then Some 30 else None)"

definition two_way :: "nat graph" where
  "two_way s t = (if s = t then Some 0 else Some 71)"


section \<open>Properties of the arithmetic\<close>

lemma rounding_ok_exact: "rounding_ok exact"
  by (simp add: rounding_ok_def exact_def)

lemma round_half_even_near: "\<bar>of_int (round_half_even z) - z\<bar> \<le> 1 / 2"
proof -
  have "of_int \<lfloor>z\<rfloor> \<le> z" "z < of_int \<lfloor>z\<rfloor> + 1"
    by linarith+
  then show ?thesis
    by (auto simp: round_half_even_def Let_def)
qed

lemma ilog2_le:
  assumes "0 < x"
  shows "2 powi (ilog2 x) \<le> x"
proof (cases "1 \<le> x")
  case True
  then have p: "0 < \<lfloor>x\<rfloor>" by linarith
  have "(2::int) ^ nat (bitlen \<lfloor>x\<rfloor> - 1) \<le> \<lfloor>x\<rfloor>"
    using bitlen_bounds[OF p] by simp
  then have "(2::real) ^ nat (bitlen \<lfloor>x\<rfloor> - 1) \<le> of_int \<lfloor>x\<rfloor>"
    by (metis of_int_le_iff of_int_numeral of_int_power)
  also have "\<dots> \<le> x"
    by linarith
  finally have r: "(2::real) ^ nat (bitlen \<lfloor>x\<rfloor> - 1) \<le> x" .
  have "0 \<le> bitlen \<lfloor>x\<rfloor> - 1"
    using p bitlen_nonneg[of "\<lfloor>x\<rfloor>"] bitlen_eq_zero_iff[of "\<lfloor>x\<rfloor>"] by linarith
  then have "(2::real) powi (ilog2 x) = 2 ^ nat (bitlen \<lfloor>x\<rfloor> - 1)"
    using True by (simp add: ilog2_def power_int_def)
  then show ?thesis
    using r by simp
next
  case False
  then have x1: "x < 1" by simp
  then have "1 < 1 / x" using assms by simp
  then have m: "0 < \<lceil>1 / x\<rceil> - 1" by linarith
  define b where "b = bitlen (\<lceil>1 / x\<rceil> - 1)"
  have "\<lceil>1 / x\<rceil> - 1 < 2 ^ nat b"
    using bitlen_bounds[OF m] by (simp add: b_def)
  then have "\<lceil>1 / x\<rceil> \<le> 2 ^ nat b" by linarith
  then have "(of_int \<lceil>1 / x\<rceil> :: real) \<le> 2 ^ nat b"
    by (metis of_int_le_iff of_int_numeral of_int_power)
  then have "1 / x \<le> 2 ^ nat b" by linarith
  then have r: "1 / 2 ^ nat b \<le> x"
    using assms by (simp add: field_simps)
  have "0 \<le> b"
    by (simp add: b_def bitlen_nonneg)
  then have "(2::real) powi (- b) = 1 / 2 ^ nat b"
    by (simp add: power_int_minus power_int_def field_simps)
  moreover have "ilog2 x = - b"
    using False by (simp add: ilog2_def b_def)
  ultimately show ?thesis
    using r by simp
qed

lemma binary64_sign:
  assumes "x \<noteq> 0"
  shows "(0 < x \<longrightarrow> 0 < binary64 x) \<and> (x < 0 \<longrightarrow> binary64 x < 0)"
proof -
  define e where "e = ilog2 \<bar>x\<bar>"
  define u :: real where "u = 2 powi (e - 52)"
  have u: "0 < u" by (simp add: u_def)
  have le: "2 powi e \<le> \<bar>x\<bar>"
    using ilog2_le[of "\<bar>x\<bar>"] assms by (simp add: e_def)
  have ue: "u = 2 powi e / 2 ^ 52"
    by (simp add: u_def power_int_diff)
  have "(2::real) powi e / 2 ^ 52 \<le> 2 powi e / 1"
    by (rule divide_left_mono) simp_all
  then have "u \<le> 2 powi e"
    unfolding ue by simp
  then have "u \<le> \<bar>x\<bar>" using le by linarith
  then have z: "1 \<le> \<bar>x / u\<bar>"
    using u by (simp add: field_simps)
  have b: "binary64 x = of_int (round_half_even (x / u)) * u"
    using assms by (simp add: binary64_def u_def e_def Let_def)
  have near: "\<bar>of_int (round_half_even (x / u)) - x / u\<bar> \<le> 1 / 2"
    by (rule round_half_even_near)
  show ?thesis
  proof (intro conjI impI)
    assume "0 < x"
    then have "1 \<le> x / u" using z u by simp
    then have "(0::real) < of_int (round_half_even (x / u))" using near by linarith
    then show "0 < binary64 x" using u b by simp
  next
    assume "x < 0"
    then have "x / u < 0" using u by (simp add: divide_neg_pos)
    then have "x / u \<le> - 1" using z by linarith
    then have "of_int (round_half_even (x / u)) < (0::real)" using near by linarith
    then show "binary64 x < 0" using u b by (simp add: mult_neg_pos)
  qed
qed

lemma rounding_ok_binary64: "rounding_ok binary64"
  using binary64_sign by (auto simp: rounding_ok_def binary64_def)

lemma fl_add_commute: "fl_add r a b = fl_add r b a"
  by (cases a; cases b) (simp_all add: add.commute)

lemma fl_mul_nan_right: "fl_mul r w NaN = NaN"
  by (cases w) simp_all

lemma weighted_mean_commute: "weighted_mean r wi wj x y = weighted_mean r wj wi y x"
  by (simp add: weighted_mean_def fl_add_commute)

lemma weighted_mean_nan:
  "x = NaN \<or> y = NaN \<Longrightarrow> weighted_mean r wi wj x y = NaN"
  by (cases "fl_mul r wi x"; cases "fl_mul r wj y") (auto simp: weighted_mean_def fl_mul_nan_right)

lemma weighted_mean_zero_weights:
  assumes "r 0 = 0"
  shows "weighted_mean r (Fin 0) (Fin 0) x y = NaN"
  using assms by (cases x; cases y) (simp_all add: weighted_mean_def)

lemma weighted_mean_finite:
  assumes "rounding_ok r" "0 < a + b"
  shows "weighted_mean r (Fin a) (Fin b) (Fin x) (Fin y)
         = Fin (r (r (r (a * x) + r (b * y)) / r (a + b)))"
proof -
  have "0 < r (a + b)"
    using assms by (simp add: rounding_ok_def)
  then show ?thesis
    by (simp add: weighted_mean_def)
qed

lemma weighted_mean_same_not_nan:
  assumes "rounding_ok r" and "0 < a" and "0 < b" and "x \<noteq> NaN"
  shows "weighted_mean r (Fin a) (Fin b) x x \<noteq> NaN"
proof -
  have "0 < r (a + b)"
    using assms(1,2,3) by (simp add: rounding_ok_def)
  then show ?thesis
    using assms(2,3,4) by (cases x) (simp_all add: weighted_mean_def)
qed

lemma d_val_commute: "d_val r dt p i j = d_val r dt p j i"
  by (simp add: d_val_def weighted_mean_commute)

text \<open>
  The relative error of one rounding to 53 bits is at most \<open>2^-53\<close>. Five roundings make the
  weighted mean of the first pass: two products, their sum, the sum of the weights and the
  quotient. Together they move it by at most eight times the error of one, relative to the
  larger of the two costs.
\<close>

lemma binary64_rel_err: "\<bar>binary64 x - x\<bar> \<le> \<bar>x\<bar> / 2 ^ 53"
proof (cases "x = 0")
  case True
  then show ?thesis by (simp add: binary64_def)
next
  case False
  define e where "e = ilog2 \<bar>x\<bar>"
  define u :: real where "u = 2 powi (e - 52)"
  have u: "0 < u" by (simp add: u_def)
  have le: "2 powi e \<le> \<bar>x\<bar>"
    using ilog2_le[of "\<bar>x\<bar>"] False by (simp add: e_def)
  have ue: "u = 2 powi e / 2 ^ 52"
    by (simp add: u_def power_int_diff)
  have b: "binary64 x = of_int (round_half_even (x / u)) * u"
    using False by (simp add: binary64_def u_def e_def Let_def)
  have near: "\<bar>of_int (round_half_even (x / u)) - x / u\<bar> \<le> 1 / 2"
    by (rule round_half_even_near)
  have "binary64 x - x = (of_int (round_half_even (x / u)) - x / u) * u"
    using u by (simp add: b field_simps)
  then have "\<bar>binary64 x - x\<bar> = \<bar>of_int (round_half_even (x / u)) - x / u\<bar> * u"
    using u by (simp add: abs_mult)
  also have "\<dots> \<le> (1 / 2) * u"
    using near u by (intro mult_right_mono) simp_all
  also have "\<dots> = 2 powi e / 2 ^ 53"
    by (simp add: ue)
  also have "\<dots> \<le> \<bar>x\<bar> / 2 ^ 53"
    using le by (simp add: divide_right_mono)
  finally show ?thesis .
qed

lemma weighted_rounded_close:
  fixes r :: rounding
  assumes R: "\<And>z. \<bar>r z - z\<bar> \<le> u * \<bar>z\<bar>" and u0: "0 \<le> u" and u1: "u \<le> 1 / 16"
    and a0: "0 \<le> a" and b0: "0 \<le> b" and N0: "0 < a + b"
  shows "\<bar>r (r (r (a * x) + r (b * y)) / r (a + b)) - (a * x + b * y) / (a + b)\<bar>
           \<le> 8 * u * max \<bar>x\<bar> \<bar>y\<bar>"
proof -
  define M where "M = max \<bar>x\<bar> \<bar>y\<bar>"
  define N where "N = a + b"
  define A where "A = a * x + b * y"
  define P1 where "P1 = r (a * x)"
  define P2 where "P2 = r (b * y)"
  define S where "S = r (P1 + P2)"
  define D where "D = r N"
  define Q where "Q = r (S / D)"
  define w where "w = u * M"
  have M0: "0 \<le> M" and xM: "\<bar>x\<bar> \<le> M" and yM: "\<bar>y\<bar> \<le> M"
    by (simp_all add: M_def)
  have N0': "0 < N" using N0 by (simp add: N_def)
  have w0: "0 \<le> w" using u0 M0 by (simp add: w_def)
  have wM: "w \<le> M / 16"
    using mult_right_mono[OF u1 M0] by (simp add: w_def)
  have ax: "\<bar>a * x\<bar> \<le> a * M"
    using a0 xM by (simp add: abs_mult mult_left_mono)
  have bye: "\<bar>b * y\<bar> \<le> b * M"
    using b0 yM by (simp add: abs_mult mult_left_mono)
  have A_le: "\<bar>A\<bar> \<le> N * M"
  proof -
    have "\<bar>A\<bar> \<le> \<bar>a * x\<bar> + \<bar>b * y\<bar>" by (simp add: A_def)
    also have "\<dots> \<le> a * M + b * M" using ax bye by simp
    finally show ?thesis by (simp add: N_def distrib_right)
  qed
  have p1: "\<bar>P1 - a * x\<bar> \<le> a * w"
  proof -
    have "\<bar>P1 - a * x\<bar> \<le> u * \<bar>a * x\<bar>" unfolding P1_def by (rule R)
    also have "\<dots> \<le> u * (a * M)" using ax u0 by (rule mult_left_mono)
    finally show ?thesis by (simp add: w_def mult_ac)
  qed
  have p2: "\<bar>P2 - b * y\<bar> \<le> b * w"
  proof -
    have "\<bar>P2 - b * y\<bar> \<le> u * \<bar>b * y\<bar>" unfolding P2_def by (rule R)
    also have "\<dots> \<le> u * (b * M)" using bye u0 by (rule mult_left_mono)
    finally show ?thesis by (simp add: w_def mult_ac)
  qed
  have s0: "\<bar>(P1 + P2) - A\<bar> \<le> N * w"
  proof -
    have "\<bar>(P1 + P2) - A\<bar> \<le> \<bar>P1 - a * x\<bar> + \<bar>P2 - b * y\<bar>"
      by (simp add: A_def)
    also have "\<dots> \<le> a * w + b * w" using p1 p2 by simp
    finally show ?thesis by (simp add: N_def distrib_right)
  qed
  have Nw: "N * w \<le> N * M"
    using wM M0 N0' by (intro mult_left_mono) simp_all
  have s1: "\<bar>P1 + P2\<bar> \<le> 2 * (N * M)"
    using s0 A_le Nw by linarith
  have s2: "\<bar>S - (P1 + P2)\<bar> \<le> 2 * (N * w)"
  proof -
    have "\<bar>S - (P1 + P2)\<bar> \<le> u * \<bar>P1 + P2\<bar>" unfolding S_def by (rule R)
    also have "\<dots> \<le> u * (2 * (N * M))" using s1 u0 by (rule mult_left_mono)
    finally show ?thesis by (simp add: w_def mult_ac)
  qed
  have s3: "\<bar>S - A\<bar> \<le> 3 * (N * w)"
    using s0 s2 by linarith
  have d1: "\<bar>D - N\<bar> \<le> u * N"
  proof -
    have "\<bar>D - N\<bar> \<le> u * \<bar>N\<bar>" unfolding D_def by (rule R)
    then show ?thesis using N0' by simp
  qed
  have uN: "u * N \<le> N / 16"
    using mult_right_mono[OF u1, of N] N0' by simp
  have d2: "15 / 16 * N \<le> D"
    using d1 uN by linarith
  have Dpos: "0 < D" using d2 N0' by linarith
  have num: "\<bar>S * N - A * D\<bar> \<le> 4 * (N * w) * N"
  proof -
    have "S * N - A * D = (S - A) * N + A * (N - D)"
      by (simp add: algebra_simps)
    then have "\<bar>S * N - A * D\<bar> \<le> \<bar>S - A\<bar> * N + \<bar>A\<bar> * \<bar>N - D\<bar>"
      using N0' by (metis abs_mult abs_of_pos abs_triangle_ineq)
    also have "\<bar>S - A\<bar> * N \<le> 3 * (N * w) * N"
      using s3 N0' by (intro mult_right_mono) simp_all
    also have "\<bar>A\<bar> * \<bar>N - D\<bar> \<le> (N * M) * (u * N)"
      using A_le d1 by (intro mult_mono) (simp_all add: abs_minus_commute)
    finally have "\<bar>S * N - A * D\<bar> \<le> 3 * (N * w) * N + (N * M) * (u * N)"
      by simp
    then show ?thesis by (simp add: w_def algebra_simps)
  qed
  have NwN0: "0 \<le> (N * w) * N" using N0' w0 by simp
  have den: "4 * (N * w) * N \<le> 5 * w * (D * N)"
  proof -
    have "(N * w) * (15 / 16 * N) \<le> (N * w) * D"
      using d2 N0' w0 by (intro mult_left_mono) simp_all
    then show ?thesis using NwN0 by (simp add: algebra_simps)
  qed
  have q1: "\<bar>S / D - A / N\<bar> \<le> 5 * w"
  proof -
    have DN: "0 < D * N" using Dpos N0' by simp
    have "S / D - A / N = (S * N - A * D) / (D * N)"
      using Dpos N0' by (simp add: field_simps)
    then have "\<bar>S / D - A / N\<bar> = \<bar>S * N - A * D\<bar> / (D * N)"
      by (simp only: abs_divide abs_of_pos[OF DN])
    also have "\<dots> \<le> (5 * w * (D * N)) / (D * N)"
      using num den DN by (intro divide_right_mono) simp_all
    also have "\<dots> = 5 * w"
    proof -
      have "D * N \<noteq> 0" using Dpos N0' by simp
      then show ?thesis by (rule nonzero_mult_div_cancel_right)
    qed
    finally show ?thesis .
  qed
  have c_le: "\<bar>A / N\<bar> \<le> M"
  proof -
    have "\<bar>A / N\<bar> = \<bar>A\<bar> / N" using N0' by simp
    also have "\<dots> \<le> (N * M) / N" using A_le N0' by (intro divide_right_mono) simp_all
    also have "\<dots> = M" using N0' by simp
    finally show ?thesis .
  qed
  have q2: "\<bar>S / D\<bar> \<le> 2 * M"
    using q1 c_le wM M0 by linarith
  have q3: "\<bar>Q - S / D\<bar> \<le> 2 * w"
  proof -
    have "\<bar>Q - S / D\<bar> \<le> u * \<bar>S / D\<bar>" unfolding Q_def by (rule R)
    also have "\<dots> \<le> u * (2 * M)" using q2 u0 by (rule mult_left_mono)
    finally show ?thesis by (simp add: w_def)
  qed
  have "\<bar>Q - A / N\<bar> \<le> 8 * w"
    using q1 q3 w0 by linarith
  then show ?thesis
    by (simp add: Q_def S_def D_def P1_def P2_def A_def N_def w_def M_def mult_ac)
qed

lemma normal64_moderate: "1 \<le> \<bar>z\<bar> \<Longrightarrow> \<bar>z\<bar> \<le> 2 ^ 53 \<Longrightarrow> normal64 z"
proof -
  assume l: "1 \<le> \<bar>z\<bar>" and u: "\<bar>z\<bar> \<le> 2 ^ 53"
  have "(1::real) \<le> 2 ^ 1022" by (rule one_le_power) simp
  then have "inverse ((2::real) ^ 1022) \<le> 1" by (rule inverse_le_1_iff[THEN iffD2, OF disjI2])
  moreover have "(2::real) powi (- 1022) = inverse (2 ^ 1022)"
    by (simp only: power_int_minus power_int_numeral)
  ultimately have a: "(2::real) powi (- 1022) \<le> \<bar>z\<bar>" using l by linarith
  have "(2::real) ^ 53 \<le> 2 ^ 971" by (rule power_increasing) simp_all
  also have "\<dots> = 1 * 2 ^ 971" by simp
  also have "\<dots> \<le> (2 ^ 53 - 1) * (2::real) ^ 971"
    by (rule mult_right_mono) simp_all
  finally have b: "\<bar>z\<bar> \<le> (2 ^ 53 - 1) * 2 ^ 971" using u by linarith
  show ?thesis unfolding normal64_def using a b by blast
qed

section \<open>What the two passes compute\<close>

lemma compute_dtilde_cells:
  assumes "shape0 T = n" "shape1 T = n" "length p = n"
  shows "\<exists>D. compute_dtilde_matrix r T p = Inr D \<and> shape0 D = n \<and> shape1 D = n \<and>
           (\<forall>i<n. \<forall>j<n. cells D i j =
              (let v = weighted_mean r (p ! i) (p ! j) (cells T i j) (cells T j i)
               in if v = NaN then Fin 0 else v))"
proof (cases "n = 1")
  case True
  then have "shape0 T = 1" "shape1 T = 1" "length p = 1"
    using assms by simp_all
  then show ?thesis
    using True
    by (simp add: compute_dtilde_matrix_def broadcast_def bdim_def bind_res_def Let_def
        reshape_col_def reshape_row_def transpose_nd_def nan_to_zero_def isnan_def weighted_mean_def)
next
  case False
  then show ?thesis
    using assms
    by (simp add: compute_dtilde_matrix_def broadcast_def bdim_def bind_res_def Let_def
        reshape_col_def reshape_row_def transpose_nd_def nan_to_zero_def isnan_def weighted_mean_def)
qed

lemma d_entry_in_range:
  assumes "shape0 dt = n" "shape1 dt = n" "i < n" "j < n"
  shows "d_entry r dt p i j = Inr (d_val r dt p i j)"
  using assms by (simp add: d_entry_def d_val_def getitem_def bind_res_def Let_def weighted_mean_def)

lemma d_inner_cells:
  assumes "shape0 dt = n" "shape1 dt = n" "i < n" "\<forall>j\<in>set js. j < n"
  shows "\<exists>D'. d_inner r dt p i js D = Inr D' \<and> shape0 D' = shape0 D \<and> shape1 D' = shape1 D \<and>
           (\<forall>a b. cells D' a b = (if a = i \<and> b \<in> set js then d_val r dt p a b else cells D a b))"
  using assms
proof (induction js arbitrary: D)
  case Nil
  then show ?case by simp
next
  case (Cons j js)
  have e: "d_entry r dt p i j = Inr (d_val r dt p i j)"
    using Cons.prems by (simp add: d_entry_in_range)
  obtain D' where D': "d_inner r dt p i js (setitem D i j (d_val r dt p i j)) = Inr D'"
      "shape0 D' = shape0 D" "shape1 D' = shape1 D"
      "\<forall>a b. cells D' a b = (if a = i \<and> b \<in> set js then d_val r dt p a b
                                else cells (setitem D i j (d_val r dt p i j)) a b)"
    using Cons.IH[of "setitem D i j (d_val r dt p i j)"] Cons.prems
    by (auto simp: setitem_def)
  show ?case
    using D' e by (auto simp: bind_res_def setitem_def)
qed

lemma d_outer_cells:
  assumes "shape0 dt = n" "shape1 dt = n" "\<forall>i\<in>set is. i < n"
  shows "\<exists>D'. d_outer r dt p n is D = Inr D' \<and> shape0 D' = shape0 D \<and> shape1 D' = shape1 D \<and>
           (\<forall>a b. cells D' a b = (if a \<in> set is \<and> b < n then d_val r dt p a b else cells D a b))"
  using assms
proof (induction "is" arbitrary: D)
  case Nil
  then show ?case by simp
next
  case (Cons i "is")
  obtain D1 where D1: "d_inner r dt p i [0..<n] D = Inr D1"
      "shape0 D1 = shape0 D" "shape1 D1 = shape1 D"
      "\<forall>a b. cells D1 a b = (if a = i \<and> b \<in> set [0..<n] then d_val r dt p a b else cells D a b)"
    using d_inner_cells[of dt n i "[0..<n]" r p D] Cons.prems by auto
  obtain D2 where D2: "d_outer r dt p n is D1 = Inr D2"
      "shape0 D2 = shape0 D1" "shape1 D2 = shape1 D1"
      "\<forall>a b. cells D2 a b = (if a \<in> set is \<and> b < n then d_val r dt p a b else cells D1 a b)"
    using Cons.IH[of D1] Cons.prems by auto
  show ?case
    using D1 D2 by (auto simp: bind_res_def)
qed

lemma compute_d_cells:
  assumes "shape0 dt = n" "shape1 dt = n" "length p = n"
  shows "\<exists>D. compute_d_matrix r dt p = Inr D \<and> shape0 D = n \<and> shape1 D = n \<and>
           (\<forall>i<n. \<forall>j<n. cells D i j = d_val r dt p i j)"
  using d_outer_cells[of dt n "[0..<n]" r p "zeros n n"] assms
  by (auto simp: compute_d_matrix_def zeros_def Let_def)

lemma dtilde_cell:
  assumes "shape0 T = n" and "shape1 T = n" and "length p = n" and "i < n" and "j < n"
  shows "cell_of (compute_dtilde_matrix r T p) i j = Inr (dtilde_val r T p i j)"
proof -
  obtain D where "compute_dtilde_matrix r T p = Inr D" "shape0 D = n" "shape1 D = n"
      "cells D i j = dtilde_val r T p i j"
    using compute_dtilde_cells[OF assms(1,2,3), of r] assms(4,5)
    unfolding dtilde_val_def by blast
  then show ?thesis
    using assms(4,5) by (simp add: cell_of_def bind_res_def getitem_def)
qed

lemma d_of_travel_cell:
  assumes "shape0 T = n" and "shape1 T = n" and "length p = n" and "i < n" and "j < n"
  shows "cell_of (d_of_travel r T p) i j =
           Inr (if p ! i = Fin 0 \<and> p ! j = Fin 0 then Fin 0
                else if p ! i = Fin 0 then dtilde_val r T p j i
                else if p ! j = Fin 0 then dtilde_val r T p i j
                else weighted_mean r (p ! i) (p ! j) (dtilde_val r T p i j) (dtilde_val r T p j i))"
proof -
  obtain D where D: "compute_dtilde_matrix r T p = Inr D" "shape0 D = n" "shape1 D = n"
      "\<forall>i<n. \<forall>j<n. cells D i j = dtilde_val r T p i j"
    using compute_dtilde_cells[OF assms(1,2,3), of r]
    unfolding dtilde_val_def by blast
  obtain E where E: "compute_d_matrix r D p = Inr E" "shape0 E = n" "shape1 E = n"
      "cells E i j = d_val r D p i j"
    using compute_d_cells[OF D(2,3) assms(3), of r] assms(4,5) by blast
  have "d_val r D p i j =
          (if p ! i = Fin 0 \<and> p ! j = Fin 0 then Fin 0
           else if p ! i = Fin 0 then dtilde_val r T p j i
           else if p ! j = Fin 0 then dtilde_val r T p i j
           else weighted_mean r (p ! i) (p ! j) (dtilde_val r T p i j) (dtilde_val r T p j i))"
    using D(4) assms(4,5) by (simp add: d_val_def)
  then show ?thesis
    using D(1) E assms(4,5) by (simp add: d_of_travel_def cell_of_def bind_res_def getitem_def)
qed

lemma dtilde_val_not_nan: "dtilde_val r T p i j \<noteq> NaN"
  by (simp add: dtilde_val_def Let_def)

lemma dtilde_val_commute: "dtilde_val r T p i j = dtilde_val r T p j i"
  by (simp add: dtilde_val_def weighted_mean_commute[of r "p ! i"])

lemma dtilde_val_nan_input:
  "cells T i j = NaN \<or> cells T j i = NaN \<Longrightarrow> dtilde_val r T p i j = Fin 0"
  by (simp add: dtilde_val_def weighted_mean_nan)

lemma dtilde_val_zero_weights:
  assumes "rounding_ok r" and "p ! i = Fin 0" and "p ! j = Fin 0"
  shows "dtilde_val r T p i j = Fin 0"
  using assms weighted_mean_zero_weights[of r] by (simp add: dtilde_val_def rounding_ok_def)

lemma two_passes:
  assumes "shape0 T = n" and "shape1 T = n" and "length p = n"
  shows "\<exists>dt d. compute_dtilde_matrix r T p = Inr dt \<and> compute_d_matrix r dt p = Inr d
           \<and> shape0 dt = n \<and> shape1 dt = n \<and> shape0 d = n \<and> shape1 d = n
           \<and> (\<forall>i<n. \<forall>j<n. cells dt i j = dtilde_val r T p i j)
           \<and> (\<forall>i<n. \<forall>j<n. cells d i j = d_val r dt p i j)"
proof -
  obtain dt where dt: "compute_dtilde_matrix r T p = Inr dt" "shape0 dt = n" "shape1 dt = n"
      "\<forall>i<n. \<forall>j<n. cells dt i j = dtilde_val r T p i j"
    using compute_dtilde_cells[OF assms, of r] unfolding dtilde_val_def by blast
  obtain d where d: "compute_d_matrix r dt p = Inr d" "shape0 d = n" "shape1 d = n"
      "\<forall>i<n. \<forall>j<n. cells d i j = d_val r dt p i j"
    using compute_d_cells[OF dt(2,3) assms(3), of r] by blast
  show ?thesis
    using dt d by blast
qed

subsection \<open>Files that fit\<close>

lemma save_all_two:
  assumes "shape0 A = length ids" and "shape1 A = length ids"
    and "shape0 B = length ids" and "shape1 B = length ids"
  shows "\<exists>fs. save_all base_name travel_type ids [(A, la), (B, lb)] = Inr fs \<and> length fs = 4"
  using assms by (simp add: DataFrame_def bind_res_def)

lemma process_files_accepts:
  assumes "shape0 T = length df" and "shape1 T = length df"
  shows "\<exists>fs. process_files r travel_type base_name df T = Inr fs \<and> length fs = 4"
proof -
  let ?p = "map (\<lambda>row. fillna0 (to_numeric_coerce (B01003_001E row))) df"
  have n: "length ?p = length df" by simp
  obtain dt d where c: "compute_dtilde_matrix r T ?p = Inr dt" "compute_d_matrix r dt ?p = Inr d"
      "shape0 dt = length df" "shape1 dt = length df" "shape0 d = length df" "shape1 d = length df"
    using two_passes[OF assms n, of r] by blast
  obtain fs where "save_all base_name travel_type (map ID df) [(dt, ''dtilde''), (d, ''d'')] = Inr fs"
      "length fs = 4"
    using save_all_two[of dt "map ID df" d base_name travel_type "''dtilde''" "''d''"] c by auto
  then show ?thesis
    using assms(1) c(1,2) by (simp add: process_files_def bind_res_def)
qed

lemma load_labeled_matrix_accepts:
  assumes "shape0 M = length df" and "shape1 M = length df"
  shows "load_labeled_matrix M df = Inr \<lparr>index = map ID df, columns = map ID df, frame_values = M\<rparr>"
  using assms by (simp add: load_labeled_matrix_def DataFrame_def Let_def)

section \<open>What the raw-matrix modules compute\<close>


lemma pool_map_raises:
  assumes "\<exists>x \<in> set xs. f x = Inl e" and "\<forall>x \<in> set xs. \<forall>e'. f x = Inl e' \<longrightarrow> e' = e"
  shows "pool_map f xs = Inl e"
  using assms
proof (induction xs)
  case Nil
  then show ?case by simp
next
  case (Cons x xs)
  show ?case
  proof (cases "f x")
    case (Inl e')
    then have "e' = e" using Cons.prems(2) by simp
    then show ?thesis using Inl by (simp add: bind_res_def)
  next
    case (Inr y)
    then have "\<exists>x \<in> set xs. f x = Inl e"
      using Cons.prems(1) by auto
    then have "pool_map f xs = Inl e"
      using Cons.IH Cons.prems(2) by simp
    then show ?thesis using Inr by (simp add: bind_res_def)
  qed
qed

lemma drive_time_error: "drive_time Gd nodes pair = Inl e \<Longrightarrow> e = NetworkXNoPath"
  by (cases pair) (auto simp: drive_time_def shortest_path_length_def bind_res_def split: option.splits)

lemma compute_matrices_drive_aborts:
  assumes "i < length nodes" and "j < length nodes" and "i \<noteq> j"
    and "Gd (nodes ! i) (nodes ! j) = None"
  shows "compute_matrices_drive Gd nodes = Inl NetworkXNoPath"
proof -
  have m: "(i, j) \<in> set (pairs_drive (length nodes))"
    using assms(1,2,3) by (auto simp: pairs_drive_def)
  have "drive_time Gd nodes (i, j) = Inl NetworkXNoPath"
    using assms(4) by (simp add: drive_time_def shortest_path_length_def bind_res_def)
  then have "pool_map (drive_time Gd nodes) (pairs_drive (length nodes)) = Inl NetworkXNoPath"
    using m drive_time_error[of Gd nodes] by (intro pool_map_raises) blast+
  then show ?thesis
    by (simp add: compute_matrices_drive_def bind_res_def)
qed

lemma drive_row_cells:
  "cells (drive_row lengths i (enumerate k xs) D) a b =
     (if a = i \<and> k \<le> b \<and> b < k + length xs
      then (case lengths (xs ! (b - k)) of None \<Rightarrow> NaN | Some c \<Rightarrow> Fin c)
      else cells D a b)"
proof (induction xs arbitrary: k D)
  case Nil
  then show ?case by auto
next
  case (Cons x xs)
  show ?case
    using Cons.IH[of "Suc k"]
    by (auto simp: setitem_def nth_Cons' Suc_diff_le)
qed

lemma drive_rows_cells:
  "cells (drive_rows G nodes (enumerate k xs) D) a b =
     (if k \<le> a \<and> a < k + length xs \<and> b < length nodes
      then (case G (xs ! (a - k)) (nodes ! b) of None \<Rightarrow> NaN | Some c \<Rightarrow> Fin c)
      else cells D a b)"
proof (induction xs arbitrary: k D)
  case Nil
  then show ?case by auto
next
  case (Cons x xs)
  show ?case
    using Cons.IH[of "Suc k"]
    by (auto simp: drive_row_cells single_source_dijkstra_path_length_def nth_Cons' Suc_diff_le)
qed

lemma full_drive_matrix_cells:
  assumes "i < length nodes" and "j < length nodes"
  shows "cells (compute_full_drive_matrix G nodes) i j =
           (case G (nodes ! i) (nodes ! j) of None \<Rightarrow> NaN | Some c \<Rightarrow> Fin c)"
  using assms by (simp add: compute_full_drive_matrix_def drive_rows_cells Let_def)

lemma full_drive_matrix_shape:
  "shape0 (compute_full_drive_matrix G nodes) = length nodes
   \<and> shape1 (compute_full_drive_matrix G nodes) = length nodes"
proof -
  have row: "shape0 (drive_row L i ps D) = shape0 D \<and> shape1 (drive_row L i ps D) = shape1 D"
    for L :: "'a \<rightharpoonup> real" and i ps D
    by (induction ps arbitrary: D) (auto simp: setitem_def)
  have rows: "shape0 (drive_rows G nodes ps D) = shape0 D \<and> shape1 (drive_rows G nodes ps D) = shape1 D"
    for ps D
    by (induction ps arbitrary: D) (auto simp: row)
  show ?thesis
    by (simp add: compute_full_drive_matrix_def Let_def rows full_def)
qed

lemma setitem_mirror_symmetric:
  assumes "\<forall>a b. cells W a b = cells W b a"
  shows "\<forall>a b. cells (setitem (setitem W i j v) j i v) a b
               = cells (setitem (setitem W i j v) j i v) b a"
  using assms by (auto simp: setitem_def)

lemma fill_walk_symmetric:
  assumes "\<forall>a b. cells W a b = cells W b a"
  shows "\<forall>a b. cells (fill_walk ps walk_results W) a b = cells (fill_walk ps walk_results W) b a"
  using assms
proof (induction ps arbitrary: W)
  case Nil
  then show ?case by simp
next
  case (Cons q ps)
  obtain idx i j where q: "q = (idx, i, j)"
    by (cases q) auto
  show ?case
    unfolding q fill_walk.simps
    by (rule Cons.IH) (rule setitem_mirror_symmetric[OF Cons.prems])
qed
























lemma walk_zero_speed_raises:
  "cell_of (compute_full_walk_matrix binary64 two_way [0, 1] (Fin 0)) 0 1 = Inl ZeroDivisionError"
  by code_simp

section \<open>The claims\<close>

subsection \<open>The first pass\<close>

text \<open>
  Claim C1, as amended. For an \<open>n \<times> n\<close> travel matrix and \<open>n\<close> populations, the first pass
  returns an \<open>n \<times> n\<close> matrix. Wherever the float value of
  \<^verbatim>\<open>(p[i]*T[i,j] + p[j]*T[j,i]) / (p[i] + p[j])\<close> is not NaN, the cell \<open>(i, j)\<close> is that value
  (an infinite travel time included). Where both populations are zero the cell is 0,
  whatever the travel times are.
\<close>

theorem dtilde_formula:
  assumes "rounding_ok r" and "shape0 T = n" and "shape1 T = n" and "length p = n"
    and "i < n" and "j < n"
  shows "\<exists>D. compute_dtilde_matrix r T p = Inr D \<and> shape0 D = n \<and> shape1 D = n
          \<and> (fl_div r (fl_add r (fl_mul r (p ! i) (cells T i j))
                                 (fl_mul r (p ! j) (cells T j i)))
                       (fl_add r (p ! i) (p ! j)) \<noteq> NaN
             \<longrightarrow> cells D i j =
                   fl_div r (fl_add r (fl_mul r (p ! i) (cells T i j))
                                      (fl_mul r (p ! j) (cells T j i)))
                            (fl_add r (p ! i) (p ! j)))
          \<and> (p ! i = Fin 0 \<and> p ! j = Fin 0 \<longrightarrow> cells D i j = Fin 0)"
proof -
  obtain D where D: "compute_dtilde_matrix r T p = Inr D" "shape0 D = n" "shape1 D = n"
    and c: "cells D i j = (let v = weighted_mean r (p ! i) (p ! j) (cells T i j) (cells T j i)
                           in if v = NaN then Fin 0 else v)"
    using compute_dtilde_cells[OF assms(2,3,4), of r] assms(5,6) by blast
  have zero: "cells D i j = Fin 0" if "p ! i = Fin 0 \<and> p ! j = Fin 0"
    using c that weighted_mean_zero_weights[of r] assms(1) by (simp add: rounding_ok_def)
  show ?thesis
    using D c zero by (auto simp: weighted_mean_def Let_def)
qed

theorem dtilde_formula_witness:
  "cell_of (compute_dtilde_matrix exact
              (of_rows [[Fin 0, Fin 4], [Fin 5, Fin 0]]) [Fin 0, Fin 10]) 0 1 = Inr (Fin 5)
   \<and> cell_of (compute_dtilde_matrix exact
              (of_rows [[Fin 0, Fin 4], [Fin 5, Fin 0]]) [Fin 0, Fin 10]) 0 0 = Inr (Fin 0)
   \<and> cell_of (compute_dtilde_matrix exact
              (of_rows [[Fin 0, PInf], [Fin 5, Fin 0]]) [Fin 10, Fin 20]) 0 1 = Inr PInf"
proof -
  let ?T = "of_rows [[Fin 0, Fin 4], [Fin 5, Fin 0]]" and ?p = "[Fin 0, Fin 10]"
  let ?U = "of_rows [[Fin 0, PInf], [Fin 5, Fin 0]]" and ?q = "[Fin 10, Fin 20]"
  have s: "shape0 ?T = 2" "shape1 ?T = 2" "length ?p = 2"
    and u: "shape0 ?U = 2" "shape1 ?U = 2" "length ?q = 2"
    by (simp_all add: of_rows_def)
  have "cell_of (compute_dtilde_matrix exact ?T ?p) 0 1 = Inr (Fin 5)"
    using dtilde_formula[OF rounding_ok_exact s, of 0 1]
    by (auto simp: cell_of_def bind_res_def getitem_def of_rows_def exact_def)
  moreover have "cell_of (compute_dtilde_matrix exact ?T ?p) 0 0 = Inr (Fin 0)"
    using dtilde_formula[OF rounding_ok_exact s, of 0 0]
    by (auto simp: cell_of_def bind_res_def getitem_def of_rows_def exact_def)
  moreover have "cell_of (compute_dtilde_matrix exact ?U ?q) 0 1 = Inr PInf"
    using dtilde_formula[OF rounding_ok_exact u, of 0 1]
    by (auto simp: cell_of_def bind_res_def getitem_def of_rows_def exact_def)
  ultimately show ?thesis by simp
qed

text \<open>
  The formula alone does not describe the first pass on every travel matrix. With
  \<open>T[0,1] = NaN\<close> and populations \<open>[1, 1]\<close> (sum \<open>2 > 0\<close>), the formula's value is NaN and the
  cell the code returns is 0.
\<close>

theorem dtilde_formula_counterexample:
  "cell_of (compute_dtilde_matrix binary64
              (of_rows [[Fin 0, NaN], [Fin 1, Fin 0]]) [Fin 1, Fin 1]) 0 1 = Inr (Fin 0)
   \<and> fl_div binary64 (fl_add binary64 (fl_mul binary64 (Fin 1) NaN) (fl_mul binary64 (Fin 1) (Fin 1)))
              (fl_add binary64 (Fin 1) (Fin 1)) = NaN"
  by code_simp

subsection \<open>The second pass\<close>

text \<open>
  Claim C2. For an \<open>n \<times> n\<close> matrix \<open>dtilde\<close> and \<open>n\<close> populations, the second pass returns the
  \<open>n \<times> n\<close> matrix whose cell \<open>(i, j)\<close> is 0 when both populations are zero, \<open>dtilde[j,i]\<close>
  when only \<open>p[i]\<close> is zero, \<open>dtilde[i,j]\<close> when only \<open>p[j]\<close> is zero, and
  \<^verbatim>\<open>(p[i]*dtilde[i,j] + p[j]*dtilde[j,i]) / (p[i] + p[j])\<close> otherwise. It reads \<open>dtilde\<close> and
  the populations only.
\<close>

theorem d_four_cases:
  assumes "shape0 dt = n" and "shape1 dt = n" and "length p = n"
  shows "\<exists>D. compute_d_matrix r dt p = Inr D \<and> shape0 D = n \<and> shape1 D = n
          \<and> (\<forall>i<n. \<forall>j<n. cells D i j =
                (if p ! i = Fin 0 \<and> p ! j = Fin 0 then Fin 0
                 else if p ! i = Fin 0 then cells dt j i
                 else if p ! j = Fin 0 then cells dt i j
                 else fl_div r (fl_add r (fl_mul r (p ! i) (cells dt i j))
                                         (fl_mul r (p ! j) (cells dt j i)))
                               (fl_add r (p ! i) (p ! j))))"
  using compute_d_cells[OF assms, of r] unfolding d_val_def weighted_mean_def .

theorem d_four_cases_witness:
  "cell_of (compute_d_matrix exact (of_rows [[Fin 0, Fin 5], [Fin 4, Fin 1]]) [Fin 0, Fin 10]) 0 0
     = Inr (Fin 0)
   \<and> cell_of (compute_d_matrix exact (of_rows [[Fin 0, Fin 5], [Fin 4, Fin 1]]) [Fin 0, Fin 10]) 0 1
     = Inr (Fin 4)
   \<and> cell_of (compute_d_matrix exact (of_rows [[Fin 0, Fin 5], [Fin 4, Fin 1]]) [Fin 0, Fin 10]) 1 0
     = Inr (Fin 4)
   \<and> cell_of (compute_d_matrix exact (of_rows [[Fin 0, Fin 5], [Fin 4, Fin 1]]) [Fin 0, Fin 10]) 1 1
     = Inr (Fin 1)"
proof -
  let ?dt = "of_rows [[Fin 0, Fin 5], [Fin 4, Fin 1]]" and ?p = "[Fin 0, Fin 10]"
  have s: "shape0 ?dt = 2" "shape1 ?dt = 2" "length ?p = 2"
    by (simp_all add: of_rows_def)
  obtain D where D: "compute_d_matrix exact ?dt ?p = Inr D" "shape0 D = 2" "shape1 D = 2"
    and c: "\<forall>i<2. \<forall>j<2. cells D i j =
                (if ?p ! i = Fin 0 \<and> ?p ! j = Fin 0 then Fin 0
                 else if ?p ! i = Fin 0 then cells ?dt j i
                 else if ?p ! j = Fin 0 then cells ?dt i j
                 else fl_div exact (fl_add exact (fl_mul exact (?p ! i) (cells ?dt i j))
                                         (fl_mul exact (?p ! j) (cells ?dt j i)))
                               (fl_add exact (?p ! i) (?p ! j)))"
    using d_four_cases[OF s, of exact] by blast
  have "cells D 0 0 = Fin 0" "cells D 0 1 = Fin 4" "cells D 1 0 = Fin 4" "cells D 1 1 = Fin 1"
    using c by (simp_all add: of_rows_def exact_def)
  then show ?thesis
    using D by (simp add: cell_of_def bind_res_def getitem_def)
qed

subsection \<open>The scenario of three points\<close>

text \<open>
  Claim C3, as amended. With populations \<open>[0, 10, 20]\<close> and the raw matrix
  \<open>[[0,4,6],[5,0,3],[7,2,0]]\<close>: \<open>dtilde[0,1] = 5\<close>, \<open>dtilde[1,2] = 7/3\<close> (in float64 the
  nearest double, less than \<open>2^-52\<close> away) and \<open>d[0,1] = dtilde[1,0] = 5\<close>, in exact and in
  float64 arithmetic.
\<close>

theorem concrete_scenario:
  "cell_of (compute_dtilde_matrix exact
      (of_rows [[Fin 0, Fin 4, Fin 6], [Fin 5, Fin 0, Fin 3], [Fin 7, Fin 2, Fin 0]])
      [Fin 0, Fin 10, Fin 20]) 0 1 = Inr (Fin 5)
   \<and> cell_of (compute_dtilde_matrix exact
      (of_rows [[Fin 0, Fin 4, Fin 6], [Fin 5, Fin 0, Fin 3], [Fin 7, Fin 2, Fin 0]])
      [Fin 0, Fin 10, Fin 20]) 1 2 = Inr (Fin (7 / 3))
   \<and> cell_of (compute_dtilde_matrix exact
      (of_rows [[Fin 0, Fin 4, Fin 6], [Fin 5, Fin 0, Fin 3], [Fin 7, Fin 2, Fin 0]])
      [Fin 0, Fin 10, Fin 20]) 1 0 = Inr (Fin 5)
   \<and> cell_of (d_of_travel exact
      (of_rows [[Fin 0, Fin 4, Fin 6], [Fin 5, Fin 0, Fin 3], [Fin 7, Fin 2, Fin 0]])
      [Fin 0, Fin 10, Fin 20]) 0 1 = Inr (Fin 5)
   \<and> cell_of (compute_dtilde_matrix binary64
      (of_rows [[Fin 0, Fin 4, Fin 6], [Fin 5, Fin 0, Fin 3], [Fin 7, Fin 2, Fin 0]])
      [Fin 0, Fin 10, Fin 20]) 0 1 = Inr (Fin 5)
   \<and> cell_of (compute_dtilde_matrix binary64
      (of_rows [[Fin 0, Fin 4, Fin 6], [Fin 5, Fin 0, Fin 3], [Fin 7, Fin 2, Fin 0]])
      [Fin 0, Fin 10, Fin 20]) 1 2 = Inr (Fin (5254199565265579 / 2 ^ 51))
   \<and> \<bar>5254199565265579 / 2 ^ 51 - 7 / 3\<bar> < (1 / 2 ^ 52 :: real)
   \<and> cell_of (compute_dtilde_matrix binary64
      (of_rows [[Fin 0, Fin 4, Fin 6], [Fin 5, Fin 0, Fin 3], [Fin 7, Fin 2, Fin 0]])
      [Fin 0, Fin 10, Fin 20]) 1 0 = Inr (Fin 5)
   \<and> cell_of (d_of_travel binary64
      (of_rows [[Fin 0, Fin 4, Fin 6], [Fin 5, Fin 0, Fin 3], [Fin 7, Fin 2, Fin 0]])
      [Fin 0, Fin 10, Fin 20]) 0 1 = Inr (Fin 5)"
proof -
  let ?T = "of_rows [[Fin 0, Fin 4, Fin 6], [Fin 5, Fin 0, Fin 3], [Fin 7, Fin 2, Fin 0]]"
  let ?p = "[Fin 0, Fin 10, Fin 20]"
  have s: "shape0 ?T = 3" "shape1 ?T = 3" "length ?p = 3"
    by (simp_all add: of_rows_def)
  have e: "dtilde_val exact ?T ?p 0 1 = Fin 5" "dtilde_val exact ?T ?p 1 2 = Fin (7 / 3)"
      "dtilde_val exact ?T ?p 1 0 = Fin 5"
    by (simp_all add: dtilde_val_def weighted_mean_def of_rows_def exact_def)
  have b: "dtilde_val binary64 ?T ?p 0 1 = Fin 5"
      "dtilde_val binary64 ?T ?p 1 2 = Fin (5254199565265579 / 2 ^ 51)"
      "dtilde_val binary64 ?T ?p 1 0 = Fin 5"
    by code_simp+
  have "\<bar>5254199565265579 / 2 ^ 51 - 7 / 3\<bar> < (1 / 2 ^ 52 :: real)"
    by simp
  then show ?thesis
    using e b by (simp add: dtilde_cell[OF s] d_of_travel_cell[OF s])
qed

text \<open>
  The value 4 that the scenario expects for \<open>d[0,1] = dtilde[1,0]\<close> is not what the code
  computes: \<open>dtilde[1,0] = (10*T[1,0] + 0*T[0,1]) / 10\<close> with \<open>T[1,0] = 5\<close>.
\<close>

theorem concrete_scenario_counterexample:
  "cell_of (d_of_travel binary64
      (of_rows [[Fin 0, Fin 4, Fin 6], [Fin 5, Fin 0, Fin 3], [Fin 7, Fin 2, Fin 0]])
      [Fin 0, Fin 10, Fin 20]) 0 1 \<noteq> Inr (Fin 4)
   \<and> cell_of (compute_dtilde_matrix binary64
      (of_rows [[Fin 0, Fin 4, Fin 6], [Fin 5, Fin 0, Fin 3], [Fin 7, Fin 2, Fin 0]])
      [Fin 0, Fin 10, Fin 20]) 1 0 \<noteq> Inr (Fin 4)"
proof -
  let ?T = "of_rows [[Fin 0, Fin 4, Fin 6], [Fin 5, Fin 0, Fin 3], [Fin 7, Fin 2, Fin 0]]"
  let ?p = "[Fin 0, Fin 10, Fin 20]"
  have s: "shape0 ?T = 3" "shape1 ?T = 3" "length ?p = 3"
    by (simp_all add: of_rows_def)
  have b: "dtilde_val binary64 ?T ?p 1 0 = Fin 5"
    by code_simp
  show ?thesis
    using b by (simp add: dtilde_cell[OF s] d_of_travel_cell[OF s])
qed

subsection \<open>Unreachable pairs in the first pass\<close>

text \<open>
  Claim C4, at the input where the code departs from it. The per-source module marks an
  unreachable pair with NaN. With \<open>T[0,1] = NaN\<close> and populations \<open>[10, 20]\<close> the first pass
  returns \<open>dtilde[0,1] = 0\<close>: the mask written for the quotient \<open>0/0\<close> of two empty tracts
  also catches the sentinel, and the pair gets the cell a pair of cost zero gets.
\<close>

theorem nan_sentinel_coerced_to_zero:
  "isnan (cells (of_rows [[Fin 0, NaN], [Fin 7, Fin 0]]) 0 1)
   \<and> cell_of (compute_dtilde_matrix binary64
        (of_rows [[Fin 0, NaN], [Fin 7, Fin 0]]) [Fin 10, Fin 20]) 0 1 = Inr (Fin 0)
   \<and> cell_of (compute_dtilde_matrix binary64
        (of_rows [[Fin 0, Fin 0], [Fin 0, Fin 0]]) [Fin 10, Fin 20]) 0 1 = Inr (Fin 0)"
proof -
  let ?T = "of_rows [[Fin 0, NaN], [Fin 7, Fin 0]]" and ?Z = "of_rows [[Fin 0, Fin 0], [Fin 0, Fin 0]]"
  let ?p = "[Fin 10, Fin 20]"
  have s: "shape0 ?T = 2" "shape1 ?T = 2" "length ?p = 2"
    and z: "shape0 ?Z = 2" "shape1 ?Z = 2" "length ?p = 2"
    by (simp_all add: of_rows_def)
  have 1: "isnan (cells ?T 0 1)"
    by (simp add: isnan_def of_rows_def)
  have 2: "dtilde_val binary64 ?T ?p 0 1 = Fin 0"
    by (simp add: dtilde_val_nan_input of_rows_def)
  have 3: "dtilde_val binary64 ?Z ?p 0 1 = Fin 0"
    by code_simp
  have c: "cell_of (compute_dtilde_matrix binary64 ?T ?p) 0 1 = Inr (dtilde_val binary64 ?T ?p 0 1)"
    by (rule dtilde_cell[OF s]) simp_all
  have c': "cell_of (compute_dtilde_matrix binary64 ?Z ?p) 0 1 = Inr (dtilde_val binary64 ?Z ?p 0 1)"
    by (rule dtilde_cell[OF z]) simp_all
  show ?thesis
    using 1 c c' unfolding 2 3 by (intro conjI)
qed

subsection \<open>Tracts without population\<close>

text \<open>
  Claim C5. For an \<open>n \<times> n\<close> travel matrix and \<open>n\<close> populations with \<open>p[k] = 0\<close>, both
  passes return, and the final matrix has \<open>d[k,j] = dtilde[j,k]\<close> for every \<open>j \<noteq> k\<close> and
  \<open>d[k,k] = 0\<close>.
\<close>

theorem zero_population_row:
  assumes "rounding_ok r" and "shape0 T = n" and "shape1 T = n" and "length p = n"
    and "k < n" and "p ! k = Fin 0"
  shows "\<exists>dt d. compute_dtilde_matrix r T p = Inr dt \<and> compute_d_matrix r dt p = Inr d
          \<and> shape0 dt = n \<and> shape1 dt = n \<and> shape0 d = n \<and> shape1 d = n
          \<and> (\<forall>j<n. j \<noteq> k \<longrightarrow> cells d k j = cells dt j k)
          \<and> cells d k k = Fin 0"
proof -
  obtain dt d where c: "compute_dtilde_matrix r T p = Inr dt" "compute_d_matrix r dt p = Inr d"
      "shape0 dt = n" "shape1 dt = n" "shape0 d = n" "shape1 d = n"
      and dt: "\<forall>i<n. \<forall>j<n. cells dt i j = dtilde_val r T p i j"
      and d: "\<forall>i<n. \<forall>j<n. cells d i j = d_val r dt p i j"
    using two_passes[OF assms(2,3,4), of r] by blast
  have row: "cells d k j = cells dt j k" if "j < n" for j
  proof (cases "p ! j = Fin 0")
    case True
    have "cells dt j k = Fin 0"
      using dt that assms(5) dtilde_val_zero_weights[OF assms(1) True assms(6), of T] by simp
    moreover have "cells d k j = Fin 0"
      using d that assms(5,6) True by (simp add: d_val_def)
    ultimately show ?thesis by simp
  next
    case False
    then show ?thesis
      using d that assms(5,6) by (simp add: d_val_def)
  qed
  have "cells d k k = Fin 0"
    using d assms(5,6) by (simp add: d_val_def)
  then show ?thesis
    using c row by blast
qed

theorem zero_population_row_witness:
  "\<exists>dt d. compute_dtilde_matrix exact
              (of_rows [[Fin 0, Fin 4, Fin 6], [Fin 5, Fin 0, Fin 3], [Fin 7, Fin 2, Fin 0]])
              [Fin 0, Fin 10, Fin 20] = Inr dt
          \<and> compute_d_matrix exact dt [Fin 0, Fin 10, Fin 20] = Inr d
          \<and> cells d 0 1 = cells dt 1 0 \<and> cells d 0 2 = cells dt 2 0 \<and> cells d 0 0 = Fin 0"
proof -
  let ?T = "of_rows [[Fin 0, Fin 4, Fin 6], [Fin 5, Fin 0, Fin 3], [Fin 7, Fin 2, Fin 0]]"
  let ?p = "[Fin 0, Fin 10, Fin 20]"
  have s: "shape0 ?T = 3" "shape1 ?T = 3" "length ?p = 3"
    by (simp_all add: of_rows_def)
  have k: "(0::nat) < 3" "?p ! 0 = Fin 0"
    by simp_all
  obtain dt d where a: "compute_dtilde_matrix exact ?T ?p = Inr dt"
      "compute_d_matrix exact dt ?p = Inr d"
      "\<forall>j<3. j \<noteq> 0 \<longrightarrow> cells d 0 j = cells dt j 0" "cells d 0 0 = Fin 0"
    using zero_population_row[OF rounding_ok_exact s k] by blast
  have "cells d 0 1 = cells dt 1 0" "cells d 0 2 = cells dt 2 0"
    using a(3) by simp_all
  then show ?thesis
    using a by blast
qed

subsection \<open>Symmetry of the final matrix\<close>

text \<open>
  Claim C6. For every \<open>n \<times> n\<close> raw matrix, symmetric or not, and every vector of \<open>n\<close>
  populations that are finite and not negative, both passes return and \<open>d[i,j] = d[j,i]\<close>
  for all \<open>i, j\<close>; the two cells are not NaN, so they are also equal as floats.
\<close>

theorem d_symmetric:
  assumes "rounding_ok r" and "shape0 T = n" and "shape1 T = n" and "length p = n"
    and "\<forall>v \<in> set p. is_population v" and "i < n" and "j < n"
  shows "\<exists>dt d. compute_dtilde_matrix r T p = Inr dt \<and> compute_d_matrix r dt p = Inr d
          \<and> shape0 d = n \<and> shape1 d = n
          \<and> cells d i j = cells d j i \<and> fl_eq (cells d i j) (cells d j i)"
proof -
  obtain dt d where c: "compute_dtilde_matrix r T p = Inr dt" "compute_d_matrix r dt p = Inr d"
      "shape0 d = n" "shape1 d = n"
      and dt: "\<forall>i<n. \<forall>j<n. cells dt i j = dtilde_val r T p i j"
      and d: "\<forall>i<n. \<forall>j<n. cells d i j = d_val r dt p i j"
    using two_passes[OF assms(2,3,4), of r] by blast
  have eq: "cells d i j = cells d j i"
    using d assms(6,7) d_val_commute[of r dt p i j] by simp
  have "is_population (p ! i)" "is_population (p ! j)"
    using assms(4,5,6,7) by simp_all
  then obtain a b where ab: "p ! i = Fin a" "p ! j = Fin b" "0 \<le> a" "0 \<le> b"
    by (auto simp: is_population_def split: fl.splits)
  have ij: "cells dt i j = dtilde_val r T p i j" and ji: "cells dt j i = dtilde_val r T p i j"
    using dt assms(6,7) dtilde_val_commute[of r T p j i] by simp_all
  have "d_val r dt p i j \<noteq> NaN"
  proof (cases "a = 0 \<or> b = 0")
    case True
    then show ?thesis
      using ab ij ji dtilde_val_not_nan[of r T p i j] by (auto simp: d_val_def)
  next
    case False
    then have pos: "0 < a" "0 < b"
      using ab(3,4) by auto
    have "weighted_mean r (Fin a) (Fin b) (dtilde_val r T p i j) (dtilde_val r T p i j) \<noteq> NaN"
      by (rule weighted_mean_same_not_nan[OF assms(1) pos dtilde_val_not_nan])
    then show ?thesis
      using False ab ij ji by (simp add: d_val_def)
  qed
  then have "cells d i j \<noteq> NaN"
    using d assms(6,7) by simp
  then show ?thesis
    using c eq by (auto simp: fl_eq_def)
qed

theorem d_symmetric_witness:
  "\<exists>dt d. compute_dtilde_matrix exact
              (of_rows [[Fin 0, Fin 4, Fin 6], [Fin 5, Fin 0, Fin 3], [Fin 7, Fin 2, Fin 0]])
              [Fin 0, Fin 10, Fin 20] = Inr dt
          \<and> compute_d_matrix exact dt [Fin 0, Fin 10, Fin 20] = Inr d
          \<and> cells d 1 2 = cells d 2 1 \<and> fl_eq (cells d 1 2) (cells d 2 1)"
proof -
  let ?T = "of_rows [[Fin 0, Fin 4, Fin 6], [Fin 5, Fin 0, Fin 3], [Fin 7, Fin 2, Fin 0]]"
  let ?p = "[Fin 0, Fin 10, Fin 20]"
  have s: "shape0 ?T = 3" "shape1 ?T = 3" "length ?p = 3"
    by (simp_all add: of_rows_def)
  have pop: "\<forall>v \<in> set ?p. is_population v"
    by (simp add: is_population_def)
  have ij: "(1::nat) < 3" "(2::nat) < 3"
    by simp_all
  show ?thesis
    using d_symmetric[OF rounding_ok_exact s pop ij] by blast
qed

subsection \<open>The first pass as a convex combination\<close>

text \<open>
  Claim C10, as amended. Let \<open>p[i]\<close> and \<open>p[j]\<close> be non-negative with a positive sum, and
  \<open>T[i,j]\<close>, \<open>T[j,i]\<close> finite. If none of the five float64 operations of the formula overflows
  or underflows, the cell \<open>(i, j)\<close> of the first pass is finite and within
  \<open>\<epsilon> = max(|T[i,j]|, |T[j,i]|) / 2^50\<close> of the convex combination
  \<open>(p[i] T[i,j] + p[j] T[j,i]) / (p[i] + p[j])\<close>. So it lies between
  \<open>min(T[i,j], T[j,i]) - \<epsilon>\<close> and \<open>max(T[i,j], T[j,i]) + \<epsilon>\<close>, and when \<open>p[i] = p[j]\<close> it is within
  \<open>\<epsilon>\<close> of the arithmetic mean \<open>(T[i,j] + T[j,i]) / 2\<close>.
\<close>

theorem dtilde_between_rounded:
  assumes "shape0 T = n" and "shape1 T = n" and "length p = n" and "i < n" and "j < n"
    and "p ! i = Fin a" and "p ! j = Fin b" and "0 \<le> a" and "0 \<le> b" and "0 < a + b"
    and "cells T i j = Fin x" and "cells T j i = Fin y"
    and "normal64 (a * x)" and "normal64 (b * y)"
    and "normal64 (binary64 (a * x) + binary64 (b * y))" and "normal64 (a + b)"
    and "normal64 (binary64 (binary64 (a * x) + binary64 (b * y)) / binary64 (a + b))"
  shows "\<exists>D v. compute_dtilde_matrix binary64 T p = Inr D \<and> cells D i j = Fin v
          \<and> \<bar>v - (a * x + b * y) / (a + b)\<bar> \<le> max \<bar>x\<bar> \<bar>y\<bar> / 2 ^ 50
          \<and> min x y - max \<bar>x\<bar> \<bar>y\<bar> / 2 ^ 50 \<le> v
          \<and> v \<le> max x y + max \<bar>x\<bar> \<bar>y\<bar> / 2 ^ 50
          \<and> (a = b \<longrightarrow> \<bar>v - (x + y) / 2\<bar> \<le> max \<bar>x\<bar> \<bar>y\<bar> / 2 ^ 50)"
proof -
  obtain D where D: "compute_dtilde_matrix binary64 T p = Inr D"
      "cells D i j = dtilde_val binary64 T p i j"
    using compute_dtilde_cells[OF assms(1,2,3), of binary64] assms(4,5)
    unfolding dtilde_val_def by blast
  define v where "v = binary64 (binary64 (binary64 (a * x) + binary64 (b * y)) / binary64 (a + b))"
  define c where "c = (a * x + b * y) / (a + b)"
  define eps where "eps = max \<bar>x\<bar> \<bar>y\<bar> / 2 ^ 50"
  have val: "dtilde_val binary64 T p i j = Fin v"
    using weighted_mean_finite[OF rounding_ok_binary64 assms(10), of x y] assms(6,7,11,12)
    by (simp add: dtilde_val_def v_def)
  have R: "\<bar>binary64 z - z\<bar> \<le> (1 / 2 ^ 53) * \<bar>z\<bar>" for z
    using binary64_rel_err[of z] by simp
  have "\<bar>v - c\<bar> \<le> 8 * (1 / 2 ^ 53) * max \<bar>x\<bar> \<bar>y\<bar>"
    unfolding v_def c_def
    by (rule weighted_rounded_close[OF R _ _ assms(8,9,10)]) simp_all
  then have close: "\<bar>v - c\<bar> \<le> eps"
    by (simp add: eps_def)
  have lo: "(a + b) * min x y \<le> a * x + b * y"
  proof -
    have "a * min x y \<le> a * x" "b * min x y \<le> b * y"
      using assms(8,9) by (simp_all add: mult_left_mono)
    then show ?thesis by (simp add: distrib_right)
  qed
  have hi: "a * x + b * y \<le> (a + b) * max x y"
  proof -
    have "a * x \<le> a * max x y" "b * y \<le> b * max x y"
      using assms(8,9) by (simp_all add: mult_left_mono)
    then show ?thesis by (simp add: distrib_right)
  qed
  have b1: "min x y \<le> c"
    using lo assms(10) by (simp add: c_def pos_le_divide_eq mult.commute)
  have b2: "c \<le> max x y"
    using hi assms(10) by (simp add: c_def pos_divide_le_eq mult.commute)
  have mean: "c = (x + y) / 2" if "a = b"
  proof -
    have "a \<noteq> 0" using that assms(10) by auto
    then show ?thesis
      using that by (simp add: c_def field_simps)
  qed
  have 1: "min x y - eps \<le> v" using close b1 by linarith
  have 2: "v \<le> max x y + eps" using close b2 by linarith
  have 3: "a = b \<longrightarrow> \<bar>v - (x + y) / 2\<bar> \<le> eps"
  proof
    assume "a = b"
    then have e: "(x + y) / 2 = c" by (rule mean[symmetric])
    show "\<bar>v - (x + y) / 2\<bar> \<le> eps" unfolding e by (rule close)
  qed
  show ?thesis
    using D val close 1 2 3 unfolding c_def eps_def by auto
qed

theorem dtilde_between_rounded_witness:
  "\<exists>D v. compute_dtilde_matrix binary64 (of_rows [[Fin 0, Fin 4], [Fin 5, Fin 0]]) [Fin 10, Fin 10]
            = Inr D \<and> cells D 0 1 = Fin v
          \<and> \<bar>v - 9 / 2\<bar> \<le> 5 / 2 ^ 50 \<and> 4 - 5 / 2 ^ 50 \<le> v \<and> v \<le> 5 + 5 / 2 ^ 50"
proof -
  let ?T = "of_rows [[Fin 0, Fin 4], [Fin 5, Fin 0]]" and ?p = "[Fin 10, Fin 10]"
  have s: "shape0 ?T = 2" "shape1 ?T = 2" "length ?p = 2" "(0::nat) < 2" "(1::nat) < 2"
    by (simp_all add: of_rows_def)
  have h: "?p ! 0 = Fin 10" "?p ! 1 = Fin 10" "(0::real) \<le> 10" "(0::real) \<le> 10"
      "(0::real) < 10 + 10" "cells ?T 0 1 = Fin 4" "cells ?T 1 0 = Fin 5"
    by (simp_all add: of_rows_def)
  have b: "binary64 (10 * 4) = 40" "binary64 (10 * 5) = 50" "binary64 (40 + 50) = 90"
      "binary64 (10 + 10) = 20" "(90::real) / 20 = 9 / 2"
    by code_simp+
  have n: "normal64 (10 * 4)" "normal64 (10 * 5)"
      "normal64 (binary64 (10 * 4) + binary64 (10 * 5))" "normal64 (10 + 10)"
      "normal64 (binary64 (binary64 (10 * 4) + binary64 (10 * 5)) / binary64 (10 + 10))"
    unfolding b by (rule normal64_moderate; simp)+
  show ?thesis
    using dtilde_between_rounded[OF s h n] by auto
qed

text \<open>
  Without the tolerance the bound fails by rounding. With populations \<open>[1, 2]\<close> and both costs
  equal to the double \<open>0.1 = 3602879701896397 / 2^55\<close>, the code computes
  \<^verbatim>\<open>(1*0.1 + 2*0.1) / (1 + 2) = 0.10000000000000002\<close>, one unit in the last place above
  both costs.
\<close>

theorem betweenness_counterexample:
  "cell_of (compute_dtilde_matrix binary64
      (of_rows [[Fin 0, Fin (3602879701896397 / 2 ^ 55)], [Fin (3602879701896397 / 2 ^ 55), Fin 0]])
      [Fin 1, Fin 2]) 0 1 = Inr (Fin (7205759403792795 / 2 ^ 56))
   \<and> fl_max (Fin (3602879701896397 / 2 ^ 55)) (Fin (3602879701896397 / 2 ^ 55))
       < 7205759403792795 / 2 ^ 56
   \<and> binary64 (1 / 10) = 3602879701896397 / 2 ^ 55"
proof -
  let ?T = "of_rows [[Fin 0, Fin (3602879701896397 / 2 ^ 55)], [Fin (3602879701896397 / 2 ^ 55), Fin 0]]"
  let ?p = "[Fin 1, Fin 2]"
  have s: "shape0 ?T = 2" "shape1 ?T = 2" "length ?p = 2"
    by (simp_all add: of_rows_def)
  have b: "dtilde_val binary64 ?T ?p 0 1 = Fin (7205759403792795 / 2 ^ 56)"
    by code_simp
  have c: "cell_of (compute_dtilde_matrix binary64 ?T ?p) 0 1 = Inr (dtilde_val binary64 ?T ?p 0 1)"
    by (rule dtilde_cell[OF s]) simp_all
  have m: "fl_max (Fin (3602879701896397 / 2 ^ 55)) (Fin (3602879701896397 / 2 ^ 55))
             < 7205759403792795 / 2 ^ 56"
    by (simp add: fl_max_def)
  have t: "binary64 (1 / 10) = 3602879701896397 / 2 ^ 55"
    by code_simp
  show ?thesis
    using c m t unfolding b by (intro conjI)
qed

subsection \<open>Shapes that do not fit\<close>

text \<open>
  Claim C9. \<^verbatim>\<open>process_files\<close> raises \<^verbatim>\<open>ValueError\<close> when the number of rows of the loaded
  travel matrix differs from the number of population entries, and \<^verbatim>\<open>load_labeled_matrix\<close>
  raises \<^verbatim>\<open>ValueError\<close> when the number of rows of the loaded matrix differs from the number
  of tract identifiers. In both cases the result is the error: nothing is labelled, nothing
  is saved.
\<close>

theorem dimension_mismatch_rejected:
  "(shape0 travel_matrix \<noteq> length df \<longrightarrow>
      process_files r travel_type base_name df travel_matrix =
        Inl (ValueError
          ''Mismatch: travel matrix size does not match number of population entries.''))
   \<and> (shape0 matrix \<noteq> length df' \<longrightarrow>
      load_labeled_matrix matrix df' =
        Inl (ValueError ''Matrix size and number of IDs do not match.''))"
  by (simp add: process_files_def load_labeled_matrix_def)

theorem dimension_mismatch_rejected_witness:
  "process_files exact ''drive'' ''CityX''
      [\<lparr>ID = ''t1'', B01003_001E = Number (Fin 10)\<rparr>, \<lparr>ID = ''t2'', B01003_001E = NotNumeric\<rparr>]
      (of_rows [[Fin 0, Fin 4, Fin 6], [Fin 5, Fin 0, Fin 3], [Fin 7, Fin 2, Fin 0]])
     = Inl (ValueError
          ''Mismatch: travel matrix size does not match number of population entries.'')
   \<and> load_labeled_matrix
      (of_rows [[Fin 0, Fin 4, Fin 6], [Fin 5, Fin 0, Fin 3], [Fin 7, Fin 2, Fin 0]])
      [\<lparr>ID = ''t1'', B01003_001E = Number (Fin 10)\<rparr>, \<lparr>ID = ''t2'', B01003_001E = NotNumeric\<rparr>]
     = Inl (ValueError ''Matrix size and number of IDs do not match.'')"
proof -
  let ?T = "of_rows [[Fin 0, Fin 4, Fin 6], [Fin 5, Fin 0, Fin 3], [Fin 7, Fin 2, Fin 0]]"
  let ?df = "[\<lparr>ID = ''t1'', B01003_001E = Number (Fin 10)\<rparr>, \<lparr>ID = ''t2'', B01003_001E = NotNumeric\<rparr>]"
  have "shape0 ?T \<noteq> length ?df"
    by (simp add: of_rows_def)
  then show ?thesis
    using dimension_mismatch_rejected[of ?T ?df exact "''drive''" "''CityX''" ?T ?df]
    by blast
qed

subsection \<open>Unreachable pairs in the raw drive matrix\<close>

text \<open>
  Claim C7, at the input where the code departs from it. On the graph \<open>one_way\<close> node \<open>1\<close>
  cannot be reached from node \<open>0\<close>. The per-source module records NaN in cell \<open>(0, 1)\<close>; the
  pairwise module returns no matrix: the \<^verbatim>\<open>NetworkXNoPath\<close> of the query leaves
  \<^verbatim>\<open>pool.map\<close> and ends the computation.
\<close>

theorem unreachable_pair_strategies:
  "one_way 0 1 = None
   \<and> cell_of (Inr (compute_full_drive_matrix one_way [0, 1])) 0 1 = Inr NaN
   \<and> compute_matrices_drive one_way [0, 1] = Inl NetworkXNoPath"
proof -
  have u: "one_way 0 1 = None"
    by (simp add: one_way_def)
  have b: "cells (compute_full_drive_matrix one_way [0, 1]) 0 1 = NaN"
    using full_drive_matrix_cells[of 0 "[0, 1]" 1 one_way] u by simp
  have a: "compute_matrices_drive one_way [0, 1] = Inl NetworkXNoPath"
    using compute_matrices_drive_aborts[of 0 "[0, 1]" 1 one_way] u by simp
  show ?thesis
    using u a b full_drive_matrix_shape[of one_way "[0, 1]"]
    by (simp add: cell_of_def bind_res_def getitem_def)
qed

subsection \<open>The two cells of a pair in the raw walk matrix\<close>




end
